theory Spec2Isabelle
  imports Main
begin

section \<open>Python values and text\<close>

text \<open>
  The values the generator stores in a field default or an enum member: \<open>None\<close>, a
  string, an integer, or any other object, which is carried with the text that
  formatting it into an f-string produces.
\<close>

datatype pyval = PNone | PStr string | PInt int | PObj string

datatype error = AttributeError | TypeError

abbreviation nl :: char where
  "nl \<equiv> CHR 0x0A"

abbreviation sq :: char where
  "sq \<equiv> CHR 0x27"

fun str_nat :: "nat \<Rightarrow> string" where
  "str_nat n =
     (if n < 10 then [char_of (48 + n)]
      else str_nat (n div 10) @ [char_of (48 + n mod 10)])"

declare str_nat.simps [simp del]

definition str_int :: "int \<Rightarrow> string" where
  "str_int i = (if i < 0 then CHR ''-'' # str_nat (nat (- i)) else str_nat (nat i))"

text \<open>What \<open>f"{v}"\<close> renders.\<close>

fun py_format :: "pyval \<Rightarrow> string" where
  "py_format PNone = ''None''"
| "py_format (PStr s) = s"
| "py_format (PInt i) = str_int i"
| "py_format (PObj s) = s"

definition startswith :: "string \<Rightarrow> string \<Rightarrow> bool" where
  "startswith s p = (take (length p) s = p)"

definition endswith :: "string \<Rightarrow> string \<Rightarrow> bool" where
  "endswith s p = (length p \<le> length s \<and> drop (length s - length p) s = p)"

text \<open>
  \<open>clean_name\<close> and \<open>get_default_value\<close> are imported from the module
  \<open>structures104\<close>, which is not modelled: every function that calls them takes them
  as a parameter (\<open>cn\<close> and \<open>gdv\<close>).
\<close>

type_synonym cleaner = "string \<Rightarrow> string"

section \<open>The type model\<close>

record EnumeratedValue =
  Name :: string
  Value :: pyval

record EnumType =
  ename :: string
  efields :: "EnumeratedValue list"
  etypeid :: "string option"

record Field =
  fname :: string
  uatype :: "string option"
  fvalue :: pyval
  array :: bool
  is_optional :: bool

record Struct =
  sname :: string
  sfields :: "Field list"
  stypeid :: "string option"
  option_counter :: int

text \<open>
  \<open>EnumeratedValue.__init__\<close>. The name comes from an XML attribute or a server
  reply and may be \<open>None\<close>, on which \<open>name.replace\<close> raises.
\<close>

definition EnumeratedValue_init :: "string option \<Rightarrow> pyval \<Rightarrow> error + EnumeratedValue" where
  "EnumeratedValue_init name v =
     (case name of
        None \<Rightarrow> Inl AttributeError
      | Some n \<Rightarrow>
          Inr \<lparr>Name = filter (\<lambda>c. c \<noteq> CHR '' '') (if n = ''None'' then ''None_'' else n),
               Value = v\<rparr>)"

definition EnumType_init :: "cleaner \<Rightarrow> string \<Rightarrow> EnumType" where
  "EnumType_init cn n = \<lparr>ename = cn n, efields = [], etypeid = None\<rparr>"

definition Field_init :: "string \<Rightarrow> Field" where
  "Field_init n =
     \<lparr>fname = n, uatype = None, fvalue = PNone, array = False, is_optional = False\<rparr>"

definition Struct_init :: "cleaner \<Rightarrow> string \<Rightarrow> Struct" where
  "Struct_init cn n = \<lparr>sname = cn n, sfields = [], stypeid = None, option_counter = 0\<rparr>"

section \<open>Code emission\<close>

subsection \<open>\<open>EnumType.get_code\<close>\<close>

definition enum_header :: "string \<Rightarrow> string" where
  "enum_header n =
     [nl, nl] @ ''class '' @ n @ ''(IntEnum):'' @ [nl, nl] @
     ''    '' @ [sq, sq, sq, nl] @
     ''    '' @ n @ '' EnumInt autogenerated from xml'' @ [nl] @
     ''    '' @ [sq, sq, sq, nl, nl]"

definition enum_line :: "cleaner \<Rightarrow> EnumeratedValue \<Rightarrow> string" where
  "enum_line cn v = ''    '' @ cn (Name v) @ '' = '' @ py_format (Value v) @ [nl]"

text \<open>The loop \<open>for EnumeratedValue in self.fields: code += ...\<close>.\<close>

fun enum_lines :: "cleaner \<Rightarrow> EnumeratedValue list \<Rightarrow> string \<Rightarrow> string" where
  "enum_lines cn [] code = code"
| "enum_lines cn (v # vs) code = enum_lines cn vs (code @ enum_line cn v)"

definition EnumType_get_code :: "cleaner \<Rightarrow> EnumType \<Rightarrow> string" where
  "EnumType_get_code cn e = enum_lines cn (efields e) (enum_header (ename e))"

subsection \<open>\<open>Struct.get_code\<close>\<close>

definition struct_header :: "string \<Rightarrow> string" where
  "struct_header n =
     [nl, nl] @ ''@dataclass'' @ [nl] @ ''class '' @ n @ '':'' @ [nl, nl] @
     ''    '' @ [sq, sq, sq, nl] @
     ''    '' @ n @ '' structure autogenerated from xml'' @ [nl] @
     ''    '' @ [sq, sq, sq, nl, nl]"

text \<open>
  The type annotation of one field (the three assignments to \<open>uatype\<close>): the quoted
  \<open>'ua.T'\<close>, wrapped in \<open>List[...]\<close> for an array, then compared with the text
  \<open>List[ua.Char]\<close>.
\<close>

definition annotation :: "Field \<Rightarrow> string" where
  "annotation f =
     (let t0 = [sq] @ ''ua.'' @ (case uatype f of None \<Rightarrow> ''None'' | Some t \<Rightarrow> t) @ [sq];
          t1 = (if array f then ''List['' @ t0 @ '']'' else t0)
      in if t1 = ''List[ua.Char]'' then ''String'' else t1)"

definition default_text :: "pyval \<Rightarrow> string" where
  "default_text v =
     (case v of
        PStr s \<Rightarrow>
          if startswith s ''ua.'' then ''field(default_factory=lambda: '' @ s @ '')'' else s
      | _ \<Rightarrow> py_format v)"

definition field_line :: "Field \<Rightarrow> string" where
  "field_line f =
     (if is_optional f
      then ''    '' @ fname f @ '': Optional['' @ annotation f @ ''] = None'' @ [nl]
      else ''    '' @ fname f @ '':'' @ annotation f @ '' = '' @ default_text (fvalue f) @ [nl])"

text \<open>The loop \<open>for sfield in self.fields\<close>, which skips the fields named \<open>SwitchField\<close>.\<close>

fun struct_lines :: "Field list \<Rightarrow> string \<Rightarrow> string" where
  "struct_lines [] code = code"
| "struct_lines (f # fs) code =
     struct_lines fs (if fname f \<noteq> ''SwitchField'' then code @ field_line f else code)"

definition encoding_field :: Field where
  "encoding_field = (Field_init ''Encoding'')\<lparr>uatype := Some ''UInt32''\<rparr>"

text \<open>
  \<open>Struct.get_code\<close> assigns to \<open>self.fields\<close>, so it returns the text together with
  the struct as the call leaves it.
\<close>

definition Struct_get_code :: "Struct \<Rightarrow> string \<times> Struct" where
  "Struct_get_code s =
     (let s' = (if 0 < option_counter s then s\<lparr>sfields := encoding_field # sfields s\<rparr> else s)
      in (struct_lines (sfields s') (struct_header (sname s')), s'))"

section \<open>Building the model from a schema document\<close>

text \<open>
  An element of the parsed document, as \<open>xml.etree.ElementTree\<close> presents it: its tag,
  its attributes (\<open>get\<close> gives \<open>None\<close> for an absent one) and its children in document
  order.
\<close>

datatype xml = Element (tag: string) (attrib: "string \<Rightarrow> string option") (children: "xml list")

datatype element = is_EnumT: EnumT (the_enum: EnumType) | is_StructT: StructT (the_struct: Struct)

text \<open>
  The dictionary \<open>enums\<close> of \<open>_make_model\<close>: the raw name of an enumerated type to
  the \<open>Value\<close> attribute of the last value read for it.
\<close>

type_synonym enums = "string \<Rightarrow> pyval option"

text \<open>\<open>get_default_value(uatype, enums, hack=True)\<close>, a parameter.\<close>

type_synonym default_fn = "string \<Rightarrow> enums \<Rightarrow> pyval"

definition attr_val :: "string option \<Rightarrow> pyval" where
  "attr_val a = (case a of None \<Rightarrow> PNone | Some s \<Rightarrow> PStr s)"

definition StructGenerator_init :: "element list" where
  "StructGenerator_init = []"

definition is_array_field :: "string \<Rightarrow> bool" where
  "is_array_field name =
     (if startswith name ''NoOf'' then True
      else if startswith name ''__'' \<and> endswith name ''Length'' then True
      else if startswith name ''#'' then True
      else False)"

text \<open>\<open>_type.split(":")[1]\<close> when the type name has a colon, the type name otherwise.\<close>

definition local_type :: "string \<Rightarrow> string" where
  "local_type t =
     (if CHR '':'' \<in> set t
      then takeWhile (\<lambda>c. c \<noteq> CHR '':'') (tl (dropWhile (\<lambda>c. c \<noteq> CHR '':'') t))
      else t)"

subsection \<open>Pass 1: enumerated types\<close>

text \<open>
  \<open>clean_name\<close> is a function on strings: called on the \<open>None\<close> of an absent \<open>Name\<close>
  attribute it raises, which the model records as \<open>AttributeError\<close>. An error ends the
  whole call; the model does not keep what was appended before it.
\<close>

fun enum_values_loop ::
  "string \<Rightarrow> xml list \<Rightarrow> EnumType \<Rightarrow> enums \<Rightarrow> error + (EnumType \<times> enums)" where
  "enum_values_loop key [] e en = Inr (e, en)"
| "enum_values_loop key (x # xs) e en =
     (if endswith (tag x) ''EnumeratedValue''
      then (case EnumeratedValue_init (attrib x ''Name'') (attr_val (attrib x ''Value'')) of
              Inl err \<Rightarrow> Inl err
            | Inr ev \<Rightarrow>
                enum_values_loop key xs (e\<lparr>efields := efields e @ [ev]\<rparr>)
                  (en(key \<mapsto> attr_val (attrib x ''Value''))))
      else enum_values_loop key xs e en)"

fun enums_pass ::
  "cleaner \<Rightarrow> xml list \<Rightarrow> element list \<Rightarrow> enums \<Rightarrow> error + (element list \<times> enums)" where
  "enums_pass cn [] m en = Inr (m, en)"
| "enums_pass cn (child # rest) m en =
     (if endswith (tag child) ''EnumeratedType''
      then (case attrib child ''Name'' of
              None \<Rightarrow> Inl AttributeError
            | Some n \<Rightarrow>
                (case enum_values_loop n (children child) (EnumType_init cn n) en of
                   Inl err \<Rightarrow> Inl err
                 | Inr (e, en') \<Rightarrow> enums_pass cn rest (m @ [EnumT e]) en'))
      else enums_pass cn rest m en)"

subsection \<open>Pass 2: structured types\<close>

text \<open>
  One iteration of the loop over the children of a structured type. The state is the
  struct under construction and the local flag \<open>array\<close>.
\<close>

definition field_step ::
  "cleaner \<Rightarrow> default_fn \<Rightarrow> enums \<Rightarrow> xml \<Rightarrow> Struct \<times> bool \<Rightarrow> error + (Struct \<times> bool)" where
  "field_step cn gdv en x st =
     (case st of (struct, arr) \<Rightarrow>
        if endswith (tag x) ''Field''
        then (case attrib x ''Name'' of
                None \<Rightarrow> Inl AttributeError
              | Some name \<Rightarrow>
                  if is_array_field name then Inr (struct, True)
                  else (case attrib x ''TypeName'' of
                          None \<Rightarrow> Inl TypeError
                        | Some t \<Rightarrow>
                            if local_type t = ''Bit'' then Inr (struct, arr)
                            else
                              let f0 = (Field_init (cn name))\<lparr>uatype := Some (cn (local_type t))\<rparr>;
                                  opt = (case attrib x ''SwitchField'' of
                                           None \<Rightarrow> False | Some sw \<Rightarrow> sw \<noteq> []);
                                  f1 = (if opt then f0\<lparr>is_optional := True\<rparr> else f0);
                                  cnt = (if opt then option_counter struct + 1
                                         else option_counter struct);
                                  f2 = f1\<lparr>fvalue := gdv (cn (local_type t)) en\<rparr>;
                                  f3 = (if arr
                                        then f2\<lparr>array := True,
                                               fvalue := PStr ''field(default_factory=list)''\<rparr>
                                        else f2)
                              in Inr (struct\<lparr>sfields := sfields struct @ [f3],
                                             option_counter := cnt\<rparr>, False)))
        else Inr st)"

fun fields_loop ::
  "cleaner \<Rightarrow> default_fn \<Rightarrow> enums \<Rightarrow> xml list \<Rightarrow> Struct \<times> bool \<Rightarrow> error + (Struct \<times> bool)" where
  "fields_loop cn gdv en [] st = Inr st"
| "fields_loop cn gdv en (x # xs) st =
     (case field_step cn gdv en x st of
        Inl err \<Rightarrow> Inl err
      | Inr st' \<Rightarrow> fields_loop cn gdv en xs st')"

text \<open>The body of the loop over structured types: the struct one declaration yields.\<close>

definition make_struct :: "cleaner \<Rightarrow> default_fn \<Rightarrow> enums \<Rightarrow> xml \<Rightarrow> error + Struct" where
  "make_struct cn gdv en child =
     (case attrib child ''Name'' of
        None \<Rightarrow> Inl AttributeError
      | Some n \<Rightarrow>
          (case fields_loop cn gdv en (children child) (Struct_init cn n, False) of
             Inl err \<Rightarrow> Inl err
           | Inr (s, arr) \<Rightarrow> Inr s))"

fun structs_pass ::
  "cleaner \<Rightarrow> default_fn \<Rightarrow> enums \<Rightarrow> xml list \<Rightarrow> element list \<Rightarrow> error + element list" where
  "structs_pass cn gdv en [] m = Inr m"
| "structs_pass cn gdv en (child # rest) m =
     (if endswith (tag child) ''StructuredType''
      then (case make_struct cn gdv en child of
              Inl err \<Rightarrow> Inl err
            | Inr s \<Rightarrow> structs_pass cn gdv en rest (m @ [StructT s]))
      else structs_pass cn gdv en rest m)"

text \<open>\<open>_make_model\<close> appends to \<open>self.model\<close>, here the argument \<open>m\<close>.\<close>

definition make_model :: "cleaner \<Rightarrow> default_fn \<Rightarrow> element list \<Rightarrow> xml \<Rightarrow> error + element list" where
  "make_model cn gdv m root =
     (case enums_pass cn (children root) m Map.empty of
        Inl err \<Rightarrow> Inl err
      | Inr (m', en) \<Rightarrow> structs_pass cn gdv en (children root) m')"

text \<open>The classification of a raw child that \<open>field_step\<close> makes, for the statements.\<close>

definition bit_typed :: "xml \<Rightarrow> bool" where
  "bit_typed x =
     (case attrib x ''TypeName'' of None \<Rightarrow> False | Some t \<Rightarrow> local_type t = ''Bit'')"

definition discarded :: "xml \<Rightarrow> bool" where
  "discarded x =
     (\<not> endswith (tag x) ''Field'' \<or>
      (case attrib x ''Name'' of
         None \<Rightarrow> False
       | Some name \<Rightarrow> is_array_field name \<or> bit_typed x))"

section \<open>Loading the generated definitions\<close>

text \<open>
  The namespace the generated text is executed in is a dictionary from names to
  objects: the library objects \<open>_generate_python_class\<close> puts there and the classes
  that executing a definition binds.
\<close>

datatype pyobj = Library string | Class string

type_synonym env = "string \<Rightarrow> pyobj option"

text \<open>
  \<open>exec(code, env)\<close> is the interpreter's: a parameter \<open>ex\<close>. It mutates \<open>env\<close> and
  either returns or raises; in both cases the caller's dictionary is what the call
  left.
\<close>

datatype exec_result = ExecOk env | ExecRaise env

type_synonym executor = "string \<Rightarrow> env \<Rightarrow> exec_result"

text \<open>The block of \<open>if ... not in env\<close> statements, with the keys it tests.\<close>

definition add_libraries :: "env \<Rightarrow> env" where
  "add_libraries env0 =
     (let e1 = (if env0 ''ua'' = None then env0(''ua'' \<mapsto> Library ''ua'') else env0);
          e2 = (if e1 ''datetime'' = None
                then e1(''datetime'' \<mapsto> Library ''datetime'', ''timezone'' \<mapsto> Library ''timezone'')
                else e1);
          e3 = (if e2 ''uuid'' = None then e2(''uuid'' \<mapsto> Library ''uuid'') else e2);
          e4 = (if e3 ''enum'' = None then e3(''IntEnum'' \<mapsto> Library ''IntEnum'') else e3);
          e5 = (if e4 ''dataclass'' = None then e4(''dataclass'' \<mapsto> Library ''dataclass'') else e4);
          e6 = (if e5 ''field'' = None then e5(''field'' \<mapsto> Library ''field'') else e5);
          e7 = (if e6 ''List'' = None then e6(''List'' \<mapsto> Library ''List'') else e6)
      in if e7 ''Optional'' = None then e7(''Optional'' \<mapsto> Library ''Optional'') else e7)"

text \<open>\<open>element.get_code()\<close> on either kind of model entry, with the entry as the call leaves it.\<close>

fun element_get_code :: "cleaner \<Rightarrow> element \<Rightarrow> string \<times> element" where
  "element_get_code cn (EnumT e) = (EnumType_get_code cn e, EnumT e)"
| "element_get_code cn (StructT s) = (fst (Struct_get_code s), StructT (snd (Struct_get_code s)))"

text \<open>
  How the call ends: it returns \<open>env\<close>, or re-raises the exception of \<open>exec\<close> after
  logging the text that failed.
\<close>

datatype outcome = Returned | Raised string

text \<open>
  The loop \<open>for element in model\<close>. The result is the outcome, the namespace and the
  model as the call leaves them (entries already visited first).
\<close>

fun exec_loop ::
  "cleaner \<Rightarrow> executor \<Rightarrow> element list \<Rightarrow> element list \<Rightarrow> env \<Rightarrow> outcome \<times> env \<times> element list" where
  "exec_loop cn ex visited [] env = (Returned, env, visited)"
| "exec_loop cn ex visited (el # els) env =
     (case ex (fst (element_get_code cn el)) env of
        ExecOk env' \<Rightarrow> exec_loop cn ex (visited @ [snd (element_get_code cn el)]) els env'
      | ExecRaise env' \<Rightarrow>
          (Raised (fst (element_get_code cn el)), env',
           visited @ snd (element_get_code cn el) # els))"

text \<open>
  \<open>_generate_python_class(model, env)\<close>; \<open>ua_dict\<close> is \<open>ua.__dict__\<close>, the namespace used
  when \<open>env\<close> is \<open>None\<close>.
\<close>

definition generate_python_class ::
  "cleaner \<Rightarrow> executor \<Rightarrow> env \<Rightarrow> element list \<Rightarrow> env option \<Rightarrow> outcome \<times> env \<times> element list" where
  "generate_python_class cn ex ua_dict model env =
     exec_loop cn ex [] model
       (add_libraries (case env of None \<Rightarrow> ua_dict | Some e \<Rightarrow> e))"

section \<open>Enumerations read from a server\<close>

text \<open>
  \<open>_get_enum_strings\<close>: \<open>val\<close> is the value read from the node, a list of localized
  texts, each with a \<open>Text\<close> that may be \<open>None\<close>. The comprehension pairs every text
  with its position.
\<close>

fun enum_strings_loop :: "nat \<Rightarrow> string option list \<Rightarrow> error + EnumeratedValue list" where
  "enum_strings_loop idx [] = Inr []"
| "enum_strings_loop idx (st # sts) =
     (case EnumeratedValue_init st (PInt (int idx)) of
        Inl err \<Rightarrow> Inl err
      | Inr ev \<Rightarrow>
          (case enum_strings_loop (Suc idx) sts of
             Inl err \<Rightarrow> Inl err
           | Inr evs \<Rightarrow> Inr (ev # evs)))"

definition get_enum_strings :: "cleaner \<Rightarrow> string \<Rightarrow> string option list \<Rightarrow> error + EnumType" where
  "get_enum_strings cn name val =
     (case enum_strings_loop 0 val of
        Inl err \<Rightarrow> Inl err
      | Inr evs \<Rightarrow> Inr ((EnumType_init cn name)\<lparr>efields := evs\<rparr>))"

text \<open>\<open>_get_enum_values\<close>: \<open>val\<close> is a list of pairs of a display text and a value.\<close>

fun enum_values_of :: "(string option \<times> int) list \<Rightarrow> error + EnumeratedValue list" where
  "enum_values_of [] = Inr []"
| "enum_values_of ((t, v) # rest) =
     (case EnumeratedValue_init t (PInt v) of
        Inl err \<Rightarrow> Inl err
      | Inr ev \<Rightarrow>
          (case enum_values_of rest of
             Inl err \<Rightarrow> Inl err
           | Inr evs \<Rightarrow> Inr (ev # evs)))"

definition get_enum_values ::
  "cleaner \<Rightarrow> string \<Rightarrow> (string option \<times> int) list \<Rightarrow> error + EnumType" where
  "get_enum_values cn name val =
     (case enum_values_of val of
        Inl err \<Rightarrow> Inl err
      | Inr evs \<Rightarrow> Inr ((EnumType_init cn name)\<lparr>efields := evs\<rparr>))"

section \<open>Registration of the types of a node\<close>

text \<open>
  The loop of \<open>load_type_definitions\<close> over the children of a node. A child
  description has a browse name and a node identifier; \<open>get_refs\<close> gives the node
  identifiers of the \<open>HasDescription\<close> references the server returns for it, and
  \<open>to_string\<close> is \<open>NodeId.to_string\<close>. The state is what the loop changes: the calls
  of \<open>ua.register_extension_object\<close> made so far, the model of the generator and the
  warnings logged.
\<close>

record 'n ndesc =
  BrowseName :: string
  NodeId :: 'n

record 'n fetch_state =
  registry :: "(string \<times> 'n \<times> pyobj) list"
  gmodel :: "element list"
  warnings :: "string list"

fun element_name :: "element \<Rightarrow> string" where
  "element_name (EnumT e) = ename e"
| "element_name (StructT s) = sname s"

fun with_typeid :: "string \<Rightarrow> element \<Rightarrow> element" where
  "with_typeid t (EnumT e) = EnumT (e\<lparr>etypeid := Some t\<rparr>)"
| "with_typeid t (StructT s) = StructT (s\<lparr>stypeid := Some t\<rparr>)"

text \<open>\<open>StructGenerator.set_typeid\<close>: the first entry of that name gets the identifier.\<close>

fun set_typeid :: "element list \<Rightarrow> string \<Rightarrow> string \<Rightarrow> element list" where
  "set_typeid [] name t = []"
| "set_typeid (el # els) name t =
     (if element_name el = name then with_typeid t el # els else el # set_typeid els name t)"

definition mismatch_warning :: "string \<Rightarrow> string" where
  "mismatch_warning name =
     name @ '' is found as child of binary definition node but is not found in xml''"

definition register_step ::
  "cleaner \<Rightarrow> ('n \<Rightarrow> 'n list) \<Rightarrow> ('n \<Rightarrow> string) \<Rightarrow> env \<Rightarrow> 'n ndesc \<Rightarrow>
   'n fetch_state \<Rightarrow> 'n fetch_state" where
  "register_step cn get_refs to_string structs_dict d st =
     (case get_refs (NodeId d) of
        [] \<Rightarrow> st
      | r # rs \<Rightarrow>
          (case structs_dict (cn (BrowseName d)) of
             None \<Rightarrow> st\<lparr>warnings := warnings st @ [mismatch_warning (cn (BrowseName d))]\<rparr>
           | Some cls \<Rightarrow>
               st\<lparr>registry := registry st @ [(cn (BrowseName d), r, cls)],
                  gmodel := set_typeid (gmodel st) (cn (BrowseName d)) (to_string r)\<rparr>))"

fun register_children ::
  "cleaner \<Rightarrow> ('n \<Rightarrow> 'n list) \<Rightarrow> ('n \<Rightarrow> string) \<Rightarrow> env \<Rightarrow> 'n ndesc list \<Rightarrow>
   'n fetch_state \<Rightarrow> 'n fetch_state" where
  "register_children cn get_refs to_string structs_dict [] st = st"
| "register_children cn get_refs to_string structs_dict (d # ds) st =
     register_children cn get_refs to_string structs_dict ds
       (register_step cn get_refs to_string structs_dict d st)"

section \<open>Name cleaning\<close>

text \<open>
  Modelled from the spec: \<open>clean_name\<close>, a function of the module \<open>structures104\<close>
  that the sources do not include. The spec asks that "names are sanitized to valid
  identifiers (no spaces, no reserved words) before being used for any type or member",
  and that "a declared member or field named \<open>None\<close> is renamed to a non-colliding
  identifier; names containing spaces have spaces removed". The identifier chosen for
  \<open>None\<close> is the one \<open>EnumeratedValue\<close> uses.
\<close>

definition clean_name :: cleaner where
  "clean_name n =
     (let m = filter (\<lambda>c. c \<noteq> CHR '' '') n in if m = ''None'' then ''None_'' else m)"

section \<open>Example inputs\<close>

definition opt_struct :: Struct where
  "opt_struct =
     \<lparr>sname = ''Opt'',
      sfields =
        [(Field_init ''A'')\<lparr>uatype := Some ''Int32'', fvalue := PStr ''ua.Int32(0)'',
            is_optional := True\<rparr>,
         (Field_init ''SwitchField'')\<lparr>uatype := Some ''UInt32'',
            fvalue := PStr ''ua.UInt32(0)''\<rparr>,
         (Field_init ''B'')\<lparr>uatype := Some ''Double'', fvalue := PStr ''ua.Double(0)''\<rparr>],
      stypeid = None, option_counter = 1\<rparr>"

definition char_array_field :: Field where
  "char_array_field =
     (Field_init ''Text'')\<lparr>uatype := Some ''Char'',
        fvalue := PStr ''field(default_factory=list)'', array := True\<rparr>"

text \<open>A stand-in for \<open>get_default_value\<close> and raw declarations for the examples.\<close>

definition gdv_example :: default_fn where
  "gdv_example t en =
     (case en t of
        None \<Rightarrow> PStr (''ua.'' @ t @ ''()'')
      | Some v \<Rightarrow> PStr (''ua.'' @ t @ ''('' @ py_format v @ '')''))"

definition raw_field :: "string \<Rightarrow> string \<Rightarrow> xml" where
  "raw_field n t = Element ''opc:Field'' [''Name'' \<mapsto> n, ''TypeName'' \<mapsto> t] []"

definition line_fields :: "Field list" where
  "line_fields =
     [\<lparr>fname = ''Id'', uatype = Some ''Int32'', fvalue = PStr ''ua.Int32()'',
        array = False, is_optional = False\<rparr>,
      \<lparr>fname = ''Points'', uatype = Some ''Double'',
        fvalue = PStr ''field(default_factory=list)'', array = True, is_optional = False\<rparr>]"

definition flag_decl :: xml where
  "flag_decl =
     Element ''opc:StructuredType'' [''Name'' \<mapsto> ''Flag'']
       [raw_field ''Filler'' ''opc:Bit'', raw_field ''Value'' ''opc:Int32'']"

definition flag_struct :: Struct where
  "flag_struct =
     \<lparr>sname = ''Flag'',
      sfields = [\<lparr>fname = ''Value'', uatype = Some ''Int32'', fvalue = PStr ''ua.Int32()'',
                  array = False, is_optional = False\<rparr>],
      stypeid = None, option_counter = 0\<rparr>"

text \<open>A document that declares a structured type before the enumerated type it uses.\<close>

definition shape_doc :: xml where
  "shape_doc =
     Element ''opc:TypeDictionary'' Map.empty
       [Element ''opc:StructuredType'' [''Name'' \<mapsto> ''Shape'']
          [raw_field ''ColorField'' ''tns:Color''],
        Element ''opc:EnumeratedType'' [''Name'' \<mapsto> ''Color'']
          [Element ''opc:EnumeratedValue'' [''Name'' \<mapsto> ''Red'', ''Value'' \<mapsto> ''0''] [],
           Element ''opc:EnumeratedValue'' [''Name'' \<mapsto> ''Green'', ''Value'' \<mapsto> ''1''] []]]"

definition color_enum :: EnumType where
  "color_enum =
     \<lparr>ename = ''Color'',
      efields = [\<lparr>Name = ''Red'', Value = PStr ''0''\<rparr>, \<lparr>Name = ''Green'', Value = PStr ''1''\<rparr>],
      etypeid = None\<rparr>"

definition shape_struct :: Struct where
  "shape_struct =
     \<lparr>sname = ''Shape'',
      sfields = [\<lparr>fname = ''ColorField'', uatype = Some ''Color'',
                  fvalue = PStr ''ua.Color(1)'', array = False, is_optional = False\<rparr>],
      stypeid = None, option_counter = 0\<rparr>"

text \<open>
  An enumerated type with a member name declared twice, on whose definition the
  interpreter raises, and a stand-in for the interpreter on a table of known texts: a
  text listed with a class name binds that name, any other text raises; like \<open>exec\<close> it
  puts \<open>__builtins__\<close> into a namespace that lacks it.
\<close>

definition mode_enum :: EnumType where
  "mode_enum =
     \<lparr>ename = ''Mode'',
      efields = [\<lparr>Name = ''Auto'', Value = PStr ''0''\<rparr>, \<lparr>Name = ''Auto'', Value = PStr ''1''\<rparr>],
      etypeid = None\<rparr>"

definition exec_known :: "(string \<times> string option) list \<Rightarrow> executor" where
  "exec_known table code env =
     (let env1 = (if env ''__builtins__'' = None
                  then env(''__builtins__'' \<mapsto> Library ''builtins'') else env)
      in case map_of table code of
           Some (Some n) \<Rightarrow> ExecOk (env1(n \<mapsto> Class n))
         | _ \<Rightarrow> ExecRaise env1)"

definition two_enums_exec :: executor where
  "two_enums_exec =
     exec_known [(EnumType_get_code id color_enum, Some ''Color''),
                 (EnumType_get_code id mode_enum, None)]"

text \<open>Child descriptions of a node, and the references a server returns for them.\<close>

definition refs_example :: "nat \<Rightarrow> nat list" where
  "refs_example n = (if n = 3 then [] else [n + 100])"

definition dict_example :: env where
  "dict_example = [''Shape'' \<mapsto> Class ''Shape'', ''Color'' \<mapsto> Class ''Color'']"

definition start_state :: "nat fetch_state" where
  "start_state =
     \<lparr>registry = [], gmodel = [EnumT color_enum, StructT shape_struct], warnings = []\<rparr>"




section \<open>Properties of the emission\<close>

text \<open>The definitions that evaluating the model builder on an example unfolds.\<close>

lemmas eval_defs =
  field_step_def is_array_field_def startswith_def endswith_def local_type_def raw_field_def
  Field_init_def Struct_init_def gdv_example_def Let_def

lemma struct_lines_concat:
  "struct_lines fs code =
     code @ concat (map field_line (filter (\<lambda>f. fname f \<noteq> ''SwitchField'') fs))"
  by (induction fs arbitrary: code) simp_all

lemma enum_lines_concat: "enum_lines cn vs code = code @ concat (map (enum_line cn) vs)"
  by (induction vs arbitrary: code) simp_all

lemma encoding_field_sel:
  "fname encoding_field = ''Encoding''" "uatype encoding_field = Some ''UInt32''"
  "\<not> is_optional encoding_field" "\<not> array encoding_field" "fvalue encoding_field = PNone"
  by (simp_all add: encoding_field_def Field_init_def)


lemma Struct_get_code_text:
  "fst (Struct_get_code s) =
     struct_header (sname s) @
     concat (map field_line (filter (\<lambda>f. fname f \<noteq> ''SwitchField'')
       (if 0 < option_counter s then encoding_field # sfields s else sfields s)))"
  by (simp add: Struct_get_code_def Let_def struct_lines_concat)

lemma field_line_nonempty: "field_line f \<noteq> []"
  by (simp add: field_line_def)






text \<open>
  Claim C10. \<open>Struct.get_code\<close> is not idempotent: with a positive optional-field
  counter a call stores the synthetic \<open>Encoding\<close> field at the head of the struct's
  field list, so the text of a second call has two \<open>Encoding\<close> lines and differs from
  the text of the first.
\<close>

theorem Struct_get_code_not_idempotent:
  assumes "0 < option_counter s"
  shows "sfields (snd (Struct_get_code s)) = encoding_field # sfields s
         \<and> option_counter (snd (Struct_get_code s)) = option_counter s
         \<and> sname (snd (Struct_get_code s)) = sname s
         \<and> fst (Struct_get_code (snd (Struct_get_code s))) =
             struct_header (sname s) @
             concat (map field_line
               (encoding_field # encoding_field #
                filter (\<lambda>f. fname f \<noteq> ''SwitchField'') (sfields s)))
         \<and> fst (Struct_get_code (snd (Struct_get_code s))) \<noteq> fst (Struct_get_code s)"
proof -
  have st: "snd (Struct_get_code s) = s\<lparr>sfields := encoding_field # sfields s\<rparr>"
    using assms by (simp add: Struct_get_code_def)
  have first: "fst (Struct_get_code s) =
      struct_header (sname s) @ field_line encoding_field @
      concat (map field_line (filter (\<lambda>f. fname f \<noteq> ''SwitchField'') (sfields s)))"
    using assms by (simp add: Struct_get_code_text encoding_field_sel)
  have second: "fst (Struct_get_code (snd (Struct_get_code s))) =
      struct_header (sname s) @ field_line encoding_field @ field_line encoding_field @
      concat (map field_line (filter (\<lambda>f. fname f \<noteq> ''SwitchField'') (sfields s)))"
    using assms by (simp add: st Struct_get_code_text encoding_field_sel)
  have "length (fst (Struct_get_code (snd (Struct_get_code s)))) =
        length (fst (Struct_get_code s)) + length (field_line encoding_field)"
    by (simp add: first second)
  moreover have "0 < length (field_line encoding_field)"
    using field_line_nonempty [of encoding_field] by simp
  ultimately have "fst (Struct_get_code (snd (Struct_get_code s))) \<noteq> fst (Struct_get_code s)"
    by auto
  then show ?thesis
    using st second by simp
qed

theorem Struct_get_code_not_idempotent_witness:
  "0 < option_counter opt_struct \<and>
   map fname (sfields (snd (Struct_get_code opt_struct))) =
     [''Encoding'', ''A'', ''SwitchField'', ''B''] \<and>
   map fname (sfields (snd (Struct_get_code (snd (Struct_get_code opt_struct))))) =
     [''Encoding'', ''Encoding'', ''A'', ''SwitchField'', ''B''] \<and>
   fst (Struct_get_code (snd (Struct_get_code opt_struct))) \<noteq> fst (Struct_get_code opt_struct)"
proof -
  have pos: "0 < option_counter opt_struct"
    by (simp add: opt_struct_def)
  note once = Struct_get_code_not_idempotent [OF pos]
  have pos': "0 < option_counter (snd (Struct_get_code opt_struct))"
    using once pos by simp
  note twice = Struct_get_code_not_idempotent [OF pos']
  have names: "map fname (sfields opt_struct) = [''A'', ''SwitchField'', ''B'']"
    by (simp add: opt_struct_def Field_init_def)
  have f1: "map fname (sfields (snd (Struct_get_code opt_struct))) =
      [''Encoding'', ''A'', ''SwitchField'', ''B'']"
    using once names by (simp add: encoding_field_sel)
  have f2: "map fname (sfields (snd (Struct_get_code (snd (Struct_get_code opt_struct))))) =
      [''Encoding'', ''Encoding'', ''A'', ''SwitchField'', ''B'']"
    using twice f1 by (simp add: encoding_field_sel)
  have ne: "fst (Struct_get_code (snd (Struct_get_code opt_struct))) \<noteq>
      fst (Struct_get_code opt_struct)"
    using once by blast
  show ?thesis
    using pos f1 f2 ne by simp
qed

lemma annotation_never_String: "annotation f \<noteq> ''String''"
  by (simp add: annotation_def Let_def)

text \<open>
  Claim C3. The annotation emitted for an array field of element type \<open>Char\<close>: the
  comparison with \<open>List[ua.Char]\<close> is made on a text that carries quotes around
  \<open>ua.Char\<close>, so it never holds, and the annotation is the list type, not \<open>String\<close>.
\<close>

theorem char_array_annotation_is_List:
  "array char_array_field \<and> uatype char_array_field = Some ''Char'' \<and>
   annotation char_array_field = ''List['' @ [sq] @ ''ua.Char'' @ [sq] @ '']'' \<and>
   field_line char_array_field =
     ''    Text:List['' @ [sq] @ ''ua.Char'' @ [sq] @ ''] = field(default_factory=list)'' @ [nl]"
  by (simp add: char_array_field_def Field_init_def field_line_def annotation_def
      default_text_def startswith_def)

section \<open>Properties of the model builder\<close>

lemma fields_loop_append:
  "fields_loop cn gdv en (xs @ ys) st =
     (case fields_loop cn gdv en xs st of
        Inl err \<Rightarrow> Inl err
      | Inr st' \<Rightarrow> fields_loop cn gdv en ys st')"
  by (induction xs arbitrary: st) (simp_all split: sum.splits)

lemma field_step_marker:
  assumes "endswith (tag x) ''Field''" "attrib x ''Name'' = Some name" "is_array_field name"
  shows "field_step cn gdv en x (s, arr) = Inr (s, True)"
  using assms by (simp add: field_step_def)

lemma field_step_discarded:
  assumes "discarded x"
  shows "field_step cn gdv en x (s, True) = Inr (s, True)"
  using assms by (auto simp: field_step_def discarded_def bit_typed_def split: option.splits)

lemma fields_loop_discarded:
  assumes "\<forall>y\<in>set ys. discarded y"
  shows "fields_loop cn gdv en ys (s, True) = Inr (s, True)"
  using assms by (induction ys) (simp_all add: field_step_discarded)

lemma field_step_materialized_eq:
  assumes "endswith (tag x) ''Field''" "attrib x ''Name'' = Some n" "\<not> is_array_field n"
    and "attrib x ''TypeName'' = Some t" "local_type t \<noteq> ''Bit''"
  shows "field_step cn gdv en x (s, arr) =
           Inr (s\<lparr>sfields := sfields s @
                    [\<lparr>fname = cn n, uatype = Some (cn (local_type t)),
                      fvalue = (if arr then PStr ''field(default_factory=list)''
                                else gdv (cn (local_type t)) en),
                      array = arr,
                      is_optional = (case attrib x ''SwitchField'' of
                                       None \<Rightarrow> False | Some sw \<Rightarrow> sw \<noteq> [])\<rparr>],
                  option_counter :=
                    (if (case attrib x ''SwitchField'' of None \<Rightarrow> False | Some sw \<Rightarrow> sw \<noteq> [])
                     then option_counter s + 1 else option_counter s)\<rparr>, False)"
  using assms by (simp add: field_step_def Let_def Field_init_def)

lemma field_step_materialized:
  assumes "endswith (tag x) ''Field''" "attrib x ''Name'' = Some n" "\<not> is_array_field n"
    and "attrib x ''TypeName'' = Some t" "local_type t \<noteq> ''Bit''"
  shows "\<exists>f c. field_step cn gdv en x (s, arr) =
            Inr (s\<lparr>sfields := sfields s @ [f], option_counter := c\<rparr>, False)
          \<and> fname f = cn n \<and> uatype f = Some (cn (local_type t))
          \<and> array f = arr
          \<and> fvalue f = (if arr then PStr ''field(default_factory=list)''
                         else gdv (cn (local_type t)) en)"
  unfolding field_step_materialized_eq [OF assms]
  by (intro exI conjI) (rule refl, simp_all)

lemma field_step_names:
  assumes "field_step cn gdv en x (s, a) = Inr (s', a')" "g \<in> set (sfields s')"
  shows "g \<in> set (sfields s) \<or>
         (endswith (tag x) ''Field'' \<and>
          (\<exists>n. attrib x ''Name'' = Some n \<and> \<not> is_array_field n \<and> fname g = cn n))"
  using assms
  by (auto simp: field_step_def Let_def Field_init_def split: if_splits option.splits)

lemma fields_loop_names:
  assumes "fields_loop cn gdv en xs st = Inr st'" "g \<in> set (sfields (fst st'))"
  shows "g \<in> set (sfields (fst st)) \<or>
         (\<exists>x\<in>set xs. endswith (tag x) ''Field'' \<and>
           (\<exists>n. attrib x ''Name'' = Some n \<and> \<not> is_array_field n \<and> fname g = cn n))"
  using assms
proof (induction xs arbitrary: st)
  case Nil
  then show ?case by simp
next
  case (Cons x xs)
  from Cons.prems(1) obtain st1 where
    step: "field_step cn gdv en x st = Inr st1" and rest: "fields_loop cn gdv en xs st1 = Inr st'"
    by (auto split: sum.splits)
  from Cons.IH [OF rest Cons.prems(2)] show ?case
  proof
    assume "g \<in> set (sfields (fst st1))"
    with step field_step_names [of cn gdv en x "fst st" "snd st" "fst st1" "snd st1" g]
    show ?thesis by auto
  next
    assume "\<exists>x\<in>set xs. endswith (tag x) ''Field'' \<and>
           (\<exists>n. attrib x ''Name'' = Some n \<and> \<not> is_array_field n \<and> fname g = cn n)"
    then show ?thesis by auto
  qed
qed

text \<open>
  Claim C4. A raw field whose name follows one of the three array-length conventions
  yields no field of the struct and switches the array mode on. The mode stays on over
  the raw children that yield no field either, and the next raw field that does yield a
  field gets \<open>array = True\<close> and the default \<open>field(default_factory=list)\<close>; after it
  the mode is off again. Every field of the resulting struct carries the cleaned name of
  a raw field whose name is not an array-length marker.
\<close>

theorem array_marker_sets_next_field:
  assumes pre: "fields_loop cn gdv en pre st0 = Inr (s1, a1)"
    and m: "endswith (tag m) ''Field''" "attrib m ''Name'' = Some name" "is_array_field name"
    and skip: "\<forall>y\<in>set skip. discarded y"
    and x: "endswith (tag x) ''Field''" "attrib x ''Name'' = Some n" "\<not> is_array_field n"
      "attrib x ''TypeName'' = Some t" "local_type t \<noteq> ''Bit''"
  shows "fields_loop cn gdv en (pre @ [m]) st0 = Inr (s1, True)
       \<and> fields_loop cn gdv en (pre @ m # skip) st0 = Inr (s1, True)
       \<and> (\<exists>f c. fields_loop cn gdv en (pre @ m # skip @ [x]) st0 =
                  Inr (s1\<lparr>sfields := sfields s1 @ [f], option_counter := c\<rparr>, False)
              \<and> fields_loop cn gdv en (pre @ m # skip @ x # rest) st0 =
                  fields_loop cn gdv en rest
                    (s1\<lparr>sfields := sfields s1 @ [f], option_counter := c\<rparr>, False)
              \<and> fname f = cn n \<and> array f
              \<and> fvalue f = PStr ''field(default_factory=list)'')
       \<and> (\<forall>s' a' g. fields_loop cn gdv en (pre @ m # skip @ x # rest) st0 = Inr (s', a')
              \<and> g \<in> set (sfields s') \<and> g \<notin> set (sfields (fst st0))
            \<longrightarrow> (\<exists>y\<in>set (pre @ m # skip @ x # rest). \<exists>n'.
                   attrib y ''Name'' = Some n' \<and> \<not> is_array_field n' \<and> fname g = cn n'))"
proof -
  have marker: "fields_loop cn gdv en (pre @ [m]) st0 = Inr (s1, True)"
    using pre m by (simp add: fields_loop_append field_step_marker)
  have skipped: "fields_loop cn gdv en (pre @ m # skip) st0 = Inr (s1, True)"
    using pre m skip by (simp add: fields_loop_append field_step_marker fields_loop_discarded)
  obtain f c where
    step: "field_step cn gdv en x (s1, True) =
             Inr (s1\<lparr>sfields := sfields s1 @ [f], option_counter := c\<rparr>, False)"
    and f: "fname f = cn n" "array f" "fvalue f = PStr ''field(default_factory=list)''"
    using field_step_materialized [OF x, of cn gdv en s1 True] by auto
  have one: "fields_loop cn gdv en (pre @ m # skip @ [x]) st0 =
      Inr (s1\<lparr>sfields := sfields s1 @ [f], option_counter := c\<rparr>, False)"
    using skipped step fields_loop_append [of cn gdv en "pre @ m # skip" "[x]" st0] by simp
  have all: "fields_loop cn gdv en (pre @ m # skip @ x # rest) st0 =
      fields_loop cn gdv en rest (s1\<lparr>sfields := sfields s1 @ [f], option_counter := c\<rparr>, False)"
    using skipped step fields_loop_append [of cn gdv en "pre @ m # skip" "x # rest" st0] by simp
  have prov: "\<forall>s' a' g. fields_loop cn gdv en (pre @ m # skip @ x # rest) st0 = Inr (s', a')
              \<and> g \<in> set (sfields s') \<and> g \<notin> set (sfields (fst st0))
            \<longrightarrow> (\<exists>y\<in>set (pre @ m # skip @ x # rest). \<exists>n'.
                   attrib y ''Name'' = Some n' \<and> \<not> is_array_field n' \<and> fname g = cn n')"
  proof (intro allI impI)
    fix s' a' g
    assume h: "fields_loop cn gdv en (pre @ m # skip @ x # rest) st0 = Inr (s', a')
              \<and> g \<in> set (sfields s') \<and> g \<notin> set (sfields (fst st0))"
    then have "g \<in> set (sfields (fst (s', a')))" by simp
    from fields_loop_names [OF conjunct1 [OF h] this] h
    show "\<exists>y\<in>set (pre @ m # skip @ x # rest). \<exists>n'.
            attrib y ''Name'' = Some n' \<and> \<not> is_array_field n' \<and> fname g = cn n'"
      by blast
  qed
  from one all f have ex: "\<exists>f c. fields_loop cn gdv en (pre @ m # skip @ [x]) st0 =
                  Inr (s1\<lparr>sfields := sfields s1 @ [f], option_counter := c\<rparr>, False)
              \<and> fields_loop cn gdv en (pre @ m # skip @ x # rest) st0 =
                  fields_loop cn gdv en rest
                    (s1\<lparr>sfields := sfields s1 @ [f], option_counter := c\<rparr>, False)
              \<and> fname f = cn n \<and> array f
              \<and> fvalue f = PStr ''field(default_factory=list)''"
    by (intro exI [of _ f] exI [of _ c] conjI)
  show ?thesis
    by (intro conjI) (rule marker, rule skipped, rule ex, rule prov)
qed

theorem array_marker_sets_next_field_witness:
  "fields_loop id gdv_example Map.empty [raw_field ''Id'' ''opc:Int32'']
     (Struct_init id ''Line'', False) =
     Inr ((Struct_init id ''Line'')\<lparr>sfields := [hd line_fields]\<rparr>, False)
   \<and> is_array_field ''NoOfPoints''
   \<and> discarded (raw_field ''Filler'' ''opc:Bit'')
   \<and> local_type ''opc:Double'' = ''Double''
   \<and> fields_loop id gdv_example Map.empty
        [raw_field ''Id'' ''opc:Int32'', raw_field ''NoOfPoints'' ''opc:Int32'',
         raw_field ''Filler'' ''opc:Bit'']
        (Struct_init id ''Line'', False) =
       Inr ((Struct_init id ''Line'')\<lparr>sfields := [hd line_fields]\<rparr>, True)
   \<and> fields_loop id gdv_example Map.empty
        [raw_field ''Id'' ''opc:Int32'', raw_field ''NoOfPoints'' ''opc:Int32'',
         raw_field ''Filler'' ''opc:Bit'', raw_field ''Points'' ''opc:Double'']
        (Struct_init id ''Line'', False) =
       Inr ((Struct_init id ''Line'')\<lparr>sfields := line_fields\<rparr>, False)"
proof -
  let ?m = "raw_field ''NoOfPoints'' ''opc:Int32''"
  let ?x = "raw_field ''Points'' ''opc:Double''"
  let ?s1 = "(Struct_init id ''Line'')\<lparr>sfields := [hd line_fields]\<rparr>"
  have pre: "fields_loop id gdv_example Map.empty [raw_field ''Id'' ''opc:Int32'']
     (Struct_init id ''Line'', False) = Inr (?s1, False)"
    by (simp add: eval_defs line_fields_def)
  have m: "endswith (tag ?m) ''Field''" "attrib ?m ''Name'' = Some ''NoOfPoints''"
    "is_array_field ''NoOfPoints''"
    by (simp_all add: eval_defs)
  have skip: "\<forall>y\<in>set [raw_field ''Filler'' ''opc:Bit'']. discarded y"
    by (simp add: discarded_def bit_typed_def eval_defs)
  have x: "endswith (tag ?x) ''Field''" "attrib ?x ''Name'' = Some ''Points''"
    "\<not> is_array_field ''Points''" "attrib ?x ''TypeName'' = Some ''opc:Double''"
    "local_type ''opc:Double'' \<noteq> ''Bit''"
    by (simp_all add: eval_defs)
  have lt: "local_type ''opc:Double'' = ''Double''"
    by (simp add: eval_defs)
  note inst = array_marker_sets_next_field [OF pre m skip x, of "[]"]
  have c2: "fields_loop id gdv_example Map.empty
        ([raw_field ''Id'' ''opc:Int32''] @ ?m # [raw_field ''Filler'' ''opc:Bit''])
        (Struct_init id ''Line'', False) = Inr (?s1, True)"
    using inst by blast
  have c3: "fields_loop id gdv_example Map.empty
        [raw_field ''Id'' ''opc:Int32'', ?m, raw_field ''Filler'' ''opc:Bit'', ?x]
        (Struct_init id ''Line'', False) =
       Inr ((Struct_init id ''Line'')\<lparr>sfields := line_fields\<rparr>, False)"
    by (simp add: eval_defs line_fields_def)
  from pre m(3) skip lt c2 c3 show ?thesis by simp
qed

lemma field_step_count:
  assumes "field_step cn gdv en x (s, a) = Inr (s', a')"
  shows "length (sfields s') + (if endswith (tag x) ''Field'' \<and> bit_typed x then 1 else 0)
         \<le> length (sfields s) + (if endswith (tag x) ''Field'' then 1 else 0)"
  using assms
  by (auto simp: field_step_def Let_def bit_typed_def split: if_splits option.splits)

lemma fields_loop_count:
  assumes "fields_loop cn gdv en xs st = Inr st'"
  shows "length (sfields (fst st')) +
           length (filter (\<lambda>x. endswith (tag x) ''Field'' \<and> bit_typed x) xs)
         \<le> length (sfields (fst st)) + length (filter (\<lambda>x. endswith (tag x) ''Field'') xs)"
  using assms
proof (induction xs arbitrary: st)
  case Nil
  then show ?case by simp
next
  case (Cons x xs)
  from Cons.prems obtain st1 where
    step: "field_step cn gdv en x st = Inr st1" and rest: "fields_loop cn gdv en xs st1 = Inr st'"
    by (auto split: sum.splits)
  from field_step_count [of cn gdv en x "fst st" "snd st" "fst st1" "snd st1"] step
  have one: "length (sfields (fst st1)) +
           (if endswith (tag x) ''Field'' \<and> bit_typed x then 1 else 0)
         \<le> length (sfields (fst st)) + (if endswith (tag x) ''Field'' then 1 else 0)"
    by simp
  note ih = Cons.IH [OF rest]
  show ?case
  proof (cases "endswith (tag x) ''Field''")
    case True
    note fld = this
    show ?thesis
    proof (cases "bit_typed x")
      case True
      with fld one ih show ?thesis by simp
    next
      case False
      with fld one ih show ?thesis by simp
    qed
  next
    case False
    with one ih show ?thesis by simp
  qed
qed

lemma fields_loop_named:
  assumes "fields_loop cn gdv en xs st = Inr st'" "x \<in> set xs" "endswith (tag x) ''Field''"
  shows "attrib x ''Name'' \<noteq> None"
  using assms
proof (induction xs arbitrary: st)
  case Nil
  then show ?case by simp
next
  case (Cons y ys)
  from Cons.prems(1) obtain st1 where
    step: "field_step cn gdv en y st = Inr st1" and rest: "fields_loop cn gdv en ys st1 = Inr st'"
    by (auto split: sum.splits)
  show ?case
  proof (cases "x = y")
    case True
    with step Cons.prems(3) show ?thesis
      by (cases st) (auto simp: field_step_def split: option.splits)
  next
    case False
    with Cons.prems(2) have "x \<in> set ys" by simp
    from Cons.IH [OF rest this Cons.prems(3)] show ?thesis .
  qed
qed

text \<open>
  Claim C5. A raw field whose type name resolves to \<open>Bit\<close> leaves the struct under
  construction as it is, and a struct built from a declaration that has such a field
  has fewer fields than the declaration has \<open>Field\<close> children (and children at all).
\<close>

theorem bit_field_not_materialized:
  assumes ok: "make_struct cn gdv en child = Inr s"
    and b: "b \<in> set (children child)" "endswith (tag b) ''Field''"
      "attrib b ''TypeName'' = Some t" "local_type t = ''Bit''"
  shows "length (sfields s) < length (filter (\<lambda>x. endswith (tag x) ''Field'') (children child))
       \<and> length (sfields s) < length (children child)
       \<and> (\<forall>s0 arr. \<exists>arr'. field_step cn gdv en b (s0, arr) = Inr (s0, arr'))"
proof -
  from ok obtain n arr where
    loop: "fields_loop cn gdv en (children child) (Struct_init cn n, False) = Inr (s, arr)"
    by (auto simp: make_struct_def split: option.splits sum.splits)
  let ?bit = "\<lambda>x. endswith (tag x) ''Field'' \<and> bit_typed x"
  have "b \<in> set (filter ?bit (children child))"
    using b by (simp add: bit_typed_def)
  then have "0 < length (filter ?bit (children child))"
    by (rule length_pos_if_in_set)
  moreover from fields_loop_count [OF loop]
  have "length (sfields s) + length (filter ?bit (children child))
        \<le> length (filter (\<lambda>x. endswith (tag x) ''Field'') (children child))"
    by (simp add: Struct_init_def)
  ultimately have c1:
    "length (sfields s) < length (filter (\<lambda>x. endswith (tag x) ''Field'') (children child))"
    by linarith
  have "length (filter (\<lambda>x. endswith (tag x) ''Field'') (children child))
        \<le> length (children child)"
    by simp
  with c1 have c2: "length (sfields s) < length (children child)"
    by linarith
  from fields_loop_named [OF loop b(1) b(2)] obtain nm where "attrib b ''Name'' = Some nm"
    by auto
  then have c3: "\<forall>s0 arr. \<exists>arr'. field_step cn gdv en b (s0, arr) = Inr (s0, arr')"
    using b by (auto simp: field_step_def)
  from c1 c2 c3 show ?thesis by (intro conjI)
qed

theorem bit_field_not_materialized_witness:
  "make_struct id gdv_example Map.empty flag_decl = Inr flag_struct
   \<and> raw_field ''Filler'' ''opc:Bit'' \<in> set (children flag_decl)
   \<and> local_type ''opc:Bit'' = ''Bit''
   \<and> length (sfields flag_struct) < length (children flag_decl)
   \<and> length (sfields flag_struct) = 1 \<and> length (children flag_decl) = 2"
proof -
  let ?b = "raw_field ''Filler'' ''opc:Bit''"
  have ok: "make_struct id gdv_example Map.empty flag_decl = Inr flag_struct"
    by (simp add: make_struct_def flag_decl_def flag_struct_def eval_defs)
  have b: "?b \<in> set (children flag_decl)" "endswith (tag ?b) ''Field''"
    "attrib ?b ''TypeName'' = Some ''opc:Bit''" "local_type ''opc:Bit'' = ''Bit''"
    by (simp_all add: flag_decl_def eval_defs)
  from bit_field_not_materialized [OF ok b]
  have "length (sfields flag_struct) < length (children flag_decl)"
    by blast
  with ok b show ?thesis
    by (simp add: flag_decl_def flag_struct_def)
qed

lemma enum_values_loop_keys:
  assumes "enum_values_loop key xs e en = Inr (e', en')"
  shows "ename e' = ename e \<and> (\<forall>k. en' k \<noteq> None \<longrightarrow> en k \<noteq> None \<or> k = key)"
  using assms
proof (induction xs arbitrary: e en)
  case Nil
  then show ?case by simp
next
  case (Cons x xs)
  show ?case
  proof (cases "endswith (tag x) ''EnumeratedValue''")
    case True
    with Cons.prems obtain ev where
      rest: "enum_values_loop key xs (e\<lparr>efields := efields e @ [ev]\<rparr>)
               (en(key \<mapsto> attr_val (attrib x ''Value''))) = Inr (e', en')"
      by (auto split: sum.splits)
    from Cons.IH [OF rest] show ?thesis
      by (auto split: if_splits)
  next
    case False
    with Cons.prems have "enum_values_loop key xs e en = Inr (e', en')" by simp
    from Cons.IH [OF this] show ?thesis .
  qed
qed

lemma enums_pass_shape:
  assumes "enums_pass cn xs m en = Inr (m', en')"
  shows "\<exists>es. m' = m @ map EnumT es \<and>
           (\<forall>k. en' k \<noteq> None \<longrightarrow> en k \<noteq> None \<or> (\<exists>e\<in>set es. ename e = cn k))"
  using assms
proof (induction xs arbitrary: m en)
  case Nil
  then show ?case by simp
next
  case (Cons child rest)
  show ?case
  proof (cases "endswith (tag child) ''EnumeratedType''")
    case True
    with Cons.prems obtain n e en1 where
      nm: "attrib child ''Name'' = Some n" and
      vals: "enum_values_loop n (children child) (EnumType_init cn n) en = Inr (e, en1)" and
      rest: "enums_pass cn rest (m @ [EnumT e]) en1 = Inr (m', en')"
      by (auto split: option.splits sum.splits)
    from enum_values_loop_keys [OF vals] have
      en: "ename e = cn n" and keys: "\<forall>k. en1 k \<noteq> None \<longrightarrow> en k \<noteq> None \<or> k = n"
      by (simp_all add: EnumType_init_def)
    from Cons.IH [OF rest] obtain es where
      m': "m' = (m @ [EnumT e]) @ map EnumT es" and
      ks: "\<forall>k. en' k \<noteq> None \<longrightarrow> en1 k \<noteq> None \<or> (\<exists>e\<in>set es. ename e = cn k)"
      by blast
    have "m' = m @ map EnumT (e # es)"
      using m' by simp
    moreover have "\<forall>k. en' k \<noteq> None \<longrightarrow> en k \<noteq> None \<or> (\<exists>e'\<in>set (e # es). ename e' = cn k)"
    proof (intro allI impI)
      fix k assume "en' k \<noteq> None"
      with ks have "en1 k \<noteq> None \<or> (\<exists>e\<in>set es. ename e = cn k)" by blast
      then show "en k \<noteq> None \<or> (\<exists>e'\<in>set (e # es). ename e' = cn k)"
      proof
        assume "en1 k \<noteq> None"
        with keys have "en k \<noteq> None \<or> k = n" by blast
        with en show ?thesis by auto
      next
        assume "\<exists>e\<in>set es. ename e = cn k"
        then show ?thesis by auto
      qed
    qed
    ultimately show ?thesis by blast
  next
    case False
    with Cons.prems have "enums_pass cn rest m en = Inr (m', en')" by simp
    from Cons.IH [OF this] show ?thesis .
  qed
qed

lemma structs_pass_shape:
  assumes "structs_pass cn gdv en xs m = Inr m'"
  shows "\<exists>ss. m' = m @ map StructT ss"
  using assms
proof (induction xs arbitrary: m)
  case Nil
  then show ?case by simp
next
  case (Cons child rest)
  show ?case
  proof (cases "endswith (tag child) ''StructuredType''")
    case True
    with Cons.prems obtain s where
      rest: "structs_pass cn gdv en rest (m @ [StructT s]) = Inr m'"
      by (auto split: sum.splits)
    from Cons.IH [OF rest] obtain ss where "m' = (m @ [StructT s]) @ map StructT ss"
      by blast
    then have "m' = m @ map StructT (s # ss)" by simp
    then show ?thesis by blast
  next
    case False
    with Cons.prems have "structs_pass cn gdv en rest m = Inr m'" by simp
    from Cons.IH [OF this] show ?thesis .
  qed
qed

lemma enums_then_structs_order:
  assumes "m = map EnumT es @ map StructT ss"
    and "i < length m" "j < length m" "is_EnumT (m ! i)" "is_StructT (m ! j)"
  shows "i < j"
proof -
  have i: "i < length es"
  proof (rule ccontr)
    assume "\<not> i < length es"
    with assms(1,2) have "m ! i = StructT (ss ! (i - length es))"
      by (simp add: nth_append)
    with assms(4) show False by simp
  qed
  have j: "\<not> j < length es"
  proof
    assume "j < length es"
    with assms(1) have "m ! j = EnumT (es ! j)"
      by (simp add: nth_append)
    with assms(5) show False by simp
  qed
  from i j show ?thesis by simp
qed

text \<open>
  Claim C6. The model that a fresh generator builds from a schema document is the
  enumerated types followed by the structured types, so an \<open>EnumType\<close> stands at a
  strictly lower index than any \<open>Struct\<close>, whatever the order of the declarations in
  the document. The dictionary \<open>enums\<close> handed to \<open>get_default_value\<close> for the struct
  fields has only keys of enumerated types of that leading part.
\<close>

theorem enums_before_structs:
  assumes "make_model cn gdv StructGenerator_init root = Inr m"
  shows "\<exists>es ss en.
           m = map EnumT es @ map StructT ss
         \<and> enums_pass cn (children root) [] Map.empty = Inr (map EnumT es, en)
         \<and> structs_pass cn gdv en (children root) (map EnumT es) = Inr m
         \<and> (\<forall>k\<in>dom en. \<exists>e\<in>set es. ename e = cn k)
         \<and> (\<forall>i j. i < length m \<and> j < length m \<and> is_EnumT (m ! i) \<and> is_StructT (m ! j)
                \<longrightarrow> i < j)"
proof -
  from assms obtain m1 en where
    p1: "enums_pass cn (children root) [] Map.empty = Inr (m1, en)" and
    p2: "structs_pass cn gdv en (children root) m1 = Inr m"
    by (auto simp: make_model_def StructGenerator_init_def split: sum.splits)
  from enums_pass_shape [OF p1] obtain es where
    m1: "m1 = map EnumT es" and
    keys: "\<forall>k. en k \<noteq> None \<longrightarrow> (\<exists>e\<in>set es. ename e = cn k)"
    by auto
  from structs_pass_shape [OF p2] m1 obtain ss where
    m: "m = map EnumT es @ map StructT ss"
    by auto
  have dom: "\<forall>k\<in>dom en. \<exists>e\<in>set es. ename e = cn k"
    using keys by (auto simp: dom_def)
  have ord: "\<forall>i j. i < length m \<and> j < length m \<and> is_EnumT (m ! i) \<and> is_StructT (m ! j)
                \<longrightarrow> i < j"
    using enums_then_structs_order [OF m] by blast
  from m p1 p2 m1 dom ord show ?thesis
    by blast
qed

theorem enums_before_structs_witness:
  "make_model id gdv_example StructGenerator_init shape_doc =
     Inr [EnumT color_enum, StructT shape_struct]
   \<and> is_EnumT ([EnumT color_enum, StructT shape_struct] ! 0)
   \<and> is_StructT ([EnumT color_enum, StructT shape_struct] ! 1)
   \<and> (\<exists>es ss. [EnumT color_enum, StructT shape_struct] = map EnumT es @ map StructT ss)"
proof -
  have ok: "make_model id gdv_example StructGenerator_init shape_doc =
     Inr [EnumT color_enum, StructT shape_struct]"
    by (simp add: make_model_def StructGenerator_init_def shape_doc_def color_enum_def
        shape_struct_def make_struct_def EnumeratedValue_init_def EnumType_init_def attr_val_def
        eval_defs)
  from enums_before_structs [OF ok]
  have "\<exists>es ss. [EnumT color_enum, StructT shape_struct] = map EnumT es @ map StructT ss"
    by blast
  with ok show ?thesis by simp
qed

section \<open>Properties of the name cleaning\<close>

lemma clean_name_no_space: "CHR '' '' \<notin> set (clean_name n)"
  by (simp add: clean_name_def Let_def)

lemma clean_name_not_None: "clean_name n \<noteq> ''None''"
  by (simp add: clean_name_def Let_def)

text \<open>
  Claim C7. \<open>EnumeratedValue.__init__\<close> replaces the declared member name \<open>None\<close> by
  \<open>None_\<close> and removes every space from any other declared name; the member line
  that \<open>EnumType.get_code\<close> generates carries \<open>clean_name\<close> of that name, which has no
  space and is not \<open>None\<close>. The name of a struct field that the model builder
  materializes is \<open>clean_name\<close> of the declared name, so it has no space and is not
  \<open>None\<close> either. \<open>clean_name\<close> is the function modelled from the spec.
\<close>

theorem names_sanitized:
  assumes "field_step clean_name gdv en x (s, arr) = Inr (s', arr')"
    and "f \<in> set (sfields s')" and "f \<notin> set (sfields s)"
  shows "(\<exists>ev. EnumeratedValue_init (Some n) v = Inr ev \<and> Value ev = v
            \<and> CHR '' '' \<notin> set (Name ev)
            \<and> (n = ''None'' \<longrightarrow> Name ev = ''None_'')
            \<and> (n \<noteq> ''None'' \<longrightarrow> Name ev = filter (\<lambda>c. c \<noteq> CHR '' '') n)
            \<and> enum_line clean_name ev =
                ''    '' @ clean_name (Name ev) @ '' = '' @ py_format v @ [nl]
            \<and> CHR '' '' \<notin> set (clean_name (Name ev))
            \<and> clean_name (Name ev) \<noteq> ''None''
            \<and> (n = ''None'' \<longrightarrow> clean_name (Name ev) = ''None_''))
       \<and> (\<exists>name. attrib x ''Name'' = Some name \<and> fname f = clean_name name)
       \<and> CHR '' '' \<notin> set (fname f)
       \<and> fname f \<noteq> ''None''"
proof -
  have enum: "\<exists>ev. EnumeratedValue_init (Some n) v = Inr ev \<and> Value ev = v
            \<and> CHR '' '' \<notin> set (Name ev)
            \<and> (n = ''None'' \<longrightarrow> Name ev = ''None_'')
            \<and> (n \<noteq> ''None'' \<longrightarrow> Name ev = filter (\<lambda>c. c \<noteq> CHR '' '') n)
            \<and> enum_line clean_name ev =
                ''    '' @ clean_name (Name ev) @ '' = '' @ py_format v @ [nl]
            \<and> CHR '' '' \<notin> set (clean_name (Name ev))
            \<and> clean_name (Name ev) \<noteq> ''None''
            \<and> (n = ''None'' \<longrightarrow> clean_name (Name ev) = ''None_'')"
    by (simp add: EnumeratedValue_init_def enum_line_def clean_name_no_space clean_name_not_None)
       (simp add: clean_name_def)
  from field_step_names [OF assms(1) assms(2)] assms(3)
  obtain name where nm: "attrib x ''Name'' = Some name" "fname f = clean_name name"
    by blast
  then have fld: "(\<exists>name. attrib x ''Name'' = Some name \<and> fname f = clean_name name)
       \<and> CHR '' '' \<notin> set (fname f) \<and> fname f \<noteq> ''None''"
    by (auto simp: clean_name_no_space clean_name_not_None)
  from enum fld show ?thesis
    by (intro conjI) blast+
qed

theorem names_sanitized_witness:
  "field_step clean_name gdv_example Map.empty (raw_field ''Not Set'' ''opc:Int32'')
     (Struct_init clean_name ''S'', False) =
     Inr ((Struct_init clean_name ''S'')
            \<lparr>sfields := [\<lparr>fname = ''NotSet'', uatype = Some ''Int32'',
                          fvalue = PStr ''ua.Int32()'', array = False, is_optional = False\<rparr>]\<rparr>,
          False)
   \<and> field_step clean_name gdv_example Map.empty (raw_field ''None'' ''opc:Int32'')
     (Struct_init clean_name ''S'', False) =
     Inr ((Struct_init clean_name ''S'')
            \<lparr>sfields := [\<lparr>fname = ''None_'', uatype = Some ''Int32'',
                          fvalue = PStr ''ua.Int32()'', array = False, is_optional = False\<rparr>]\<rparr>,
          False)
   \<and> EnumeratedValue_init (Some ''None'') (PInt 0) = Inr \<lparr>Name = ''None_'', Value = PInt 0\<rparr>
   \<and> EnumeratedValue_init (Some ''Not Set'') (PInt 1) = Inr \<lparr>Name = ''NotSet'', Value = PInt 1\<rparr>
   \<and> enum_line clean_name \<lparr>Name = ''None_'', Value = PInt 0\<rparr> =
       ''    None_ = '' @ py_format (PInt 0) @ [nl]"
proof -
  let ?f = "\<lparr>fname = ''NotSet'', uatype = Some ''Int32'',
              fvalue = PStr ''ua.Int32()'', array = False, is_optional = False\<rparr>"
  let ?s' = "(Struct_init clean_name ''S'')\<lparr>sfields := [?f]\<rparr>"
  have cn1: "clean_name ''Not Set'' = ''NotSet''" and cn2: "clean_name ''None'' = ''None_''"
    and cn3: "clean_name ''Int32'' = ''Int32''" and cn4: "clean_name ''None_'' = ''None_''"
    by (simp_all add: clean_name_def)
  have step: "field_step clean_name gdv_example Map.empty (raw_field ''Not Set'' ''opc:Int32'')
     (Struct_init clean_name ''S'', False) = Inr (?s', False)"
    by (simp add: eval_defs cn1 cn3)
  have step2: "field_step clean_name gdv_example Map.empty (raw_field ''None'' ''opc:Int32'')
     (Struct_init clean_name ''S'', False) =
     Inr ((Struct_init clean_name ''S'')
            \<lparr>sfields := [\<lparr>fname = ''None_'', uatype = Some ''Int32'',
                          fvalue = PStr ''ua.Int32()'', array = False, is_optional = False\<rparr>]\<rparr>,
          False)"
    by (simp add: eval_defs cn2 cn3)
  have inn: "?f \<in> set (sfields ?s')" and out: "?f \<notin> set (sfields (Struct_init clean_name ''S''))"
    by (simp_all add: Struct_init_def)
  note inst = names_sanitized [OF step inn out, of "''None''" "PInt 0"]
  from inst obtain ev where
    ev: "EnumeratedValue_init (Some ''None'') (PInt 0) = Inr ev" and
    nm: "Name ev = ''None_''" and vl: "Value ev = PInt 0" and
    ln: "enum_line clean_name ev =
           ''    '' @ clean_name (Name ev) @ '' = '' @ py_format (PInt 0) @ [nl]"
    by auto
  from nm vl have evr: "ev = \<lparr>Name = ''None_'', Value = PInt 0\<rparr>"
    by simp
  have e1: "EnumeratedValue_init (Some ''None'') (PInt 0) = Inr \<lparr>Name = ''None_'', Value = PInt 0\<rparr>"
    using ev evr by simp
  have e2: "EnumeratedValue_init (Some ''Not Set'') (PInt 1) = Inr \<lparr>Name = ''NotSet'', Value = PInt 1\<rparr>"
    by (simp add: EnumeratedValue_init_def)
  have e3: "enum_line clean_name \<lparr>Name = ''None_'', Value = PInt 0\<rparr> =
       ''    None_ = '' @ py_format (PInt 0) @ [nl]"
    using ln evr by (simp add: cn4)
  from step step2 e1 e2 e3 show ?thesis
    by (intro conjI)
qed

text \<open>
  The test for \<open>None\<close> comes before the spaces are removed, so a declared name that is
  \<open>None\<close> only without its spaces is kept as \<open>None\<close> by the constructor; what the
  generated member is called is then up to \<open>clean_name\<close>.
\<close>

lemma EnumeratedValue_init_check_before_strip:
  "EnumeratedValue_init (Some ''No ne'') v = Inr \<lparr>Name = ''None'', Value = v\<rparr>"
  by (simp add: EnumeratedValue_init_def)

section \<open>Properties of the loader\<close>

lemma exec_loop_raised:
  assumes "exec_loop cn ex visited model env = (Raised code, env', model')"
  shows "\<exists>pre el post env1.
           model = pre @ el # post
         \<and> exec_loop cn ex visited pre env =
             (Returned, env1, visited @ map (\<lambda>e. snd (element_get_code cn e)) pre)
         \<and> code = fst (element_get_code cn el)
         \<and> ex code env1 = ExecRaise env'
         \<and> model' = visited @ map (\<lambda>e. snd (element_get_code cn e)) pre @
               snd (element_get_code cn el) # post"
  using assms
proof (induction model arbitrary: visited env)
  case Nil
  then show ?case by simp
next
  case (Cons el els)
  show ?case
  proof (cases "ex (fst (element_get_code cn el)) env")
    case (ExecOk env2)
    with Cons.prems have
      "exec_loop cn ex (visited @ [snd (element_get_code cn el)]) els env2 =
         (Raised code, env', model')"
      by simp
    from Cons.IH [OF this] obtain pre el' post env1 where
      a: "els = pre @ el' # post" and
      b: "exec_loop cn ex (visited @ [snd (element_get_code cn el)]) pre env2 =
            (Returned, env1,
             (visited @ [snd (element_get_code cn el)]) @
               map (\<lambda>e. snd (element_get_code cn e)) pre)" and
      c: "code = fst (element_get_code cn el')" and
      d: "ex code env1 = ExecRaise env'" and
      e: "model' = (visited @ [snd (element_get_code cn el)]) @
            map (\<lambda>e. snd (element_get_code cn e)) pre @ snd (element_get_code cn el') # post"
      by blast
    have "el # els = (el # pre) @ el' # post"
      using a by simp
    moreover have "exec_loop cn ex visited (el # pre) env =
        (Returned, env1, visited @ map (\<lambda>e. snd (element_get_code cn e)) (el # pre))"
      using b ExecOk by simp
    moreover have "model' = visited @ map (\<lambda>e. snd (element_get_code cn e)) (el # pre) @
        snd (element_get_code cn el') # post"
      using e by simp
    ultimately show ?thesis
      using c d by blast
  next
    case (ExecRaise env2)
    with Cons.prems have
      c: "code = fst (element_get_code cn el)" and d: "env' = env2" and
      e: "model' = visited @ snd (element_get_code cn el) # els"
      by simp_all
    have "el # els = [] @ el # els" by simp
    moreover have "exec_loop cn ex visited [] env =
        (Returned, env, visited @ map (\<lambda>e. snd (element_get_code cn e)) [])"
      by simp
    moreover have "ex code env = ExecRaise env'"
      using ExecRaise c d by simp
    moreover have "model' = visited @ map (\<lambda>e. snd (element_get_code cn e)) [] @
        snd (element_get_code cn el) # els"
      using e by simp
    ultimately show ?thesis
      using c by blast
  qed
qed

lemma two_codes_differ:
  "EnumType_get_code id color_enum \<noteq> EnumType_get_code id mode_enum"
  by (simp add: EnumType_get_code_def color_enum_def mode_enum_def enum_header_def)

lemma two_enums_exec_color:
  "two_enums_exec (EnumType_get_code id color_enum) env =
     ExecOk ((if env ''__builtins__'' = None
              then env(''__builtins__'' \<mapsto> Library ''builtins'') else env)
             (''Color'' \<mapsto> Class ''Color''))"
  by (simp add: two_enums_exec_def exec_known_def Let_def)

lemma two_enums_exec_mode:
  "two_enums_exec (EnumType_get_code id mode_enum) env =
     ExecRaise (if env ''__builtins__'' = None
                then env(''__builtins__'' \<mapsto> Library ''builtins'') else env)"
  using two_codes_differ
  by (simp add: two_enums_exec_def exec_known_def Let_def eq_commute [of "EnumType_get_code id mode_enum"])

lemma two_enums_run:
  "generate_python_class id two_enums_exec ua_dict [EnumT color_enum, EnumT mode_enum]
     (Some Map.empty) =
   (Raised (EnumType_get_code id mode_enum),
    (add_libraries Map.empty)(''__builtins__'' \<mapsto> Library ''builtins'',
       ''Color'' \<mapsto> Class ''Color''),
    [EnumT color_enum, EnumT mode_enum])"
  by (simp add: generate_python_class_def two_enums_exec_color two_enums_exec_mode
      add_libraries_def Let_def)

text \<open>
  A run that fails on its second entry: the class of the first entry is bound in the
  namespace the caller passed, which did not have it before. This refutes claim C1 as
  it is stated (nothing of a failing model is committed).
\<close>

theorem generate_python_class_commits_prefix:
  "fst (generate_python_class id two_enums_exec Map.empty [EnumT color_enum, EnumT mode_enum]
          (Some Map.empty)) = Raised (EnumType_get_code id mode_enum)
   \<and> element_name (EnumT color_enum) = ''Color''
   \<and> (Map.empty :: env) ''Color'' = None
   \<and> fst (snd (generate_python_class id two_enums_exec Map.empty
          [EnumT color_enum, EnumT mode_enum] (Some Map.empty))) ''Color'' = Some (Class ''Color'')"
  unfolding two_enums_run by (simp add: color_enum_def)

lemma two_enums_exec_keeps:
  "\<forall>c e e' n v. two_enums_exec c e = ExecRaise e' \<and> e n = Some v \<longrightarrow> e' n = Some v"
  by (auto simp: two_enums_exec_def exec_known_def Let_def split: option.splits if_splits)

lemma color_run:
  "generate_python_class id two_enums_exec ua_dict [EnumT color_enum] (Some Map.empty) =
   (Returned,
    (add_libraries Map.empty)(''__builtins__'' \<mapsto> Library ''builtins'',
       ''Color'' \<mapsto> Class ''Color''),
    [EnumT color_enum])"
  by (simp add: generate_python_class_def two_enums_exec_color add_libraries_def Let_def)

text \<open>
  Claim C1, amended. When \<open>_generate_python_class\<close> fails, it fails on one entry of the
  model. The entries before it have been emitted and executed with success in the
  target namespace, exactly as a call on those entries alone would; the text logged is
  that of the failing entry; the namespace after the failed call is the one the failing
  execution left, starting from the namespace those entries had built; no later entry
  is emitted or executed. Nothing is staged or rolled back: whenever an execution that
  raises leaves the bindings it found as they were, every binding made by the entries
  before the failing one is still in the target namespace after the failed call.
\<close>

theorem generate_python_class_failure:
  assumes "generate_python_class cn ex ua_dict model env = (Raised code, env', model')"
  shows "\<exists>pre el post env1.
           model = pre @ el # post
         \<and> generate_python_class cn ex ua_dict pre env =
             (Returned, env1, map (\<lambda>e. snd (element_get_code cn e)) pre)
         \<and> code = fst (element_get_code cn el)
         \<and> ex code env1 = ExecRaise env'
         \<and> model' = map (\<lambda>e. snd (element_get_code cn e)) pre @
               snd (element_get_code cn el) # post
         \<and> ((\<forall>c e e' n v. ex c e = ExecRaise e' \<and> e n = Some v \<longrightarrow> e' n = Some v)
              \<longrightarrow> (\<forall>n v. env1 n = Some v \<longrightarrow> env' n = Some v))"
proof -
  let ?start = "add_libraries (case env of None \<Rightarrow> ua_dict | Some e \<Rightarrow> e)"
  from assms have run: "exec_loop cn ex [] model ?start = (Raised code, env', model')"
    by (simp add: generate_python_class_def)
  from exec_loop_raised [OF run] obtain pre el post env1 where
    a: "model = pre @ el # post" and
    b0: "exec_loop cn ex [] pre ?start =
             (Returned, env1, [] @ map (\<lambda>e. snd (element_get_code cn e)) pre)" and
    c: "code = fst (element_get_code cn el)" and
    d: "ex code env1 = ExecRaise env'" and
    e0: "model' = [] @ map (\<lambda>e. snd (element_get_code cn e)) pre @
               snd (element_get_code cn el) # post"
    by blast
  from b0 have b: "generate_python_class cn ex ua_dict pre env =
             (Returned, env1, map (\<lambda>e. snd (element_get_code cn e)) pre)"
    by (simp add: generate_python_class_def)
  from e0 have e: "model' = map (\<lambda>e. snd (element_get_code cn e)) pre @
               snd (element_get_code cn el) # post"
    by simp
  from d have "(\<forall>c e e' n v. ex c e = ExecRaise e' \<and> e n = Some v \<longrightarrow> e' n = Some v)
              \<longrightarrow> (\<forall>n v. env1 n = Some v \<longrightarrow> env' n = Some v)"
    by blast
  with a b c d e show ?thesis
    by blast
qed

theorem generate_python_class_failure_witness:
  "fst (generate_python_class id two_enums_exec Map.empty [EnumT color_enum, EnumT mode_enum]
          (Some Map.empty)) = Raised (EnumType_get_code id mode_enum)
   \<and> fst (snd (generate_python_class id two_enums_exec Map.empty [EnumT color_enum]
          (Some Map.empty))) ''Color'' = Some (Class ''Color'')
   \<and> fst (snd (generate_python_class id two_enums_exec Map.empty
          [EnumT color_enum, EnumT mode_enum] (Some Map.empty))) ''Color'' = Some (Class ''Color'')"
proof -
  let ?run = "generate_python_class id two_enums_exec Map.empty
                [EnumT color_enum, EnumT mode_enum] (Some Map.empty)"
  have out: "fst ?run = Raised (EnumType_get_code id mode_enum)"
    by (simp add: two_enums_run)
  then have run: "?run = (Raised (EnumType_get_code id mode_enum), fst (snd ?run), snd (snd ?run))"
    by (metis prod.collapse)
  from generate_python_class_failure [OF run] obtain pre el post env1 where
    split: "[EnumT color_enum, EnumT mode_enum] = pre @ el # post" and
    pre: "generate_python_class id two_enums_exec Map.empty pre (Some Map.empty) =
             (Returned, env1, map (\<lambda>e. snd (element_get_code id e)) pre)" and
    code: "EnumType_get_code id mode_enum = fst (element_get_code id el)" and
    keep: "(\<forall>c e e' n v. two_enums_exec c e = ExecRaise e' \<and> e n = Some v \<longrightarrow> e' n = Some v)
              \<longrightarrow> (\<forall>n v. env1 n = Some v \<longrightarrow> fst (snd ?run) n = Some v)"
    by blast
  have "pre = [EnumT color_enum]"
  proof (cases pre)
    case Nil
    with split have "el = EnumT color_enum" by simp
    with code two_codes_differ show ?thesis by simp
  next
    case (Cons p ps)
    with split have p: "p = EnumT color_enum" and rest: "[EnumT mode_enum] = ps @ el # post"
      by simp_all
    from rest have "ps = []"
      by (cases ps) simp_all
    with p Cons show ?thesis by simp
  qed
  with pre have "env1 = (add_libraries Map.empty)(''__builtins__'' \<mapsto> Library ''builtins'',
       ''Color'' \<mapsto> Class ''Color'')"
    by (simp add: color_run)
  then have bound: "env1 ''Color'' = Some (Class ''Color'')"
    by simp
  from keep two_enums_exec_keeps have "\<forall>n v. env1 n = Some v \<longrightarrow> fst (snd ?run) n = Some v"
    by blast
  with bound have kept: "fst (snd ?run) ''Color'' = Some (Class ''Color'')"
    by blast
  have one: "fst (snd (generate_python_class id two_enums_exec Map.empty [EnumT color_enum]
          (Some Map.empty))) ''Color'' = Some (Class ''Color'')"
    by (simp add: color_run)
  from out one kept show ?thesis
    by (intro conjI)
qed

section \<open>Properties of the registration loop\<close>

lemma register_children_append:
  "register_children cn get_refs to_string sd (xs @ ys) st =
     register_children cn get_refs to_string sd ys
       (register_children cn get_refs to_string sd xs st)"
  by (induction xs arbitrary: st) simp_all

lemma register_step_warnings:
  "register_step cn get_refs to_string sd d (st\<lparr>warnings := w\<rparr>) =
     (register_step cn get_refs to_string sd d st)
       \<lparr>warnings := (if get_refs (NodeId d) \<noteq> [] \<and> sd (cn (BrowseName d)) = None
                     then w @ [mismatch_warning (cn (BrowseName d))] else w)\<rparr>"
  by (simp add: register_step_def split: list.splits option.splits)

lemma register_children_warnings:
  "\<exists>w'. register_children cn get_refs to_string sd ds (st\<lparr>warnings := w\<rparr>) =
         (register_children cn get_refs to_string sd ds st)\<lparr>warnings := w'\<rparr>"
proof (induction ds arbitrary: st w)
  case Nil
  show ?case by auto
next
  case (Cons d ds)
  show ?case
    using Cons.IH [where st = "register_step cn get_refs to_string sd d st"]
    by (simp add: register_step_warnings)
qed

lemma register_step_unmatched:
  assumes "get_refs (NodeId d) \<noteq> []" "sd (cn (BrowseName d)) = None"
  shows "register_step cn get_refs to_string sd d st =
           st\<lparr>warnings := warnings st @ [mismatch_warning (cn (BrowseName d))]\<rparr>"
  using assms by (simp add: register_step_def split: list.splits)

text \<open>
  Claim C8. In the loop over the child descriptions of a node, a description that has
  a \<open>HasDescription\<close> reference and whose cleaned browse name is not a key of the
  type dictionary only adds a warning: nothing is registered for it, no type
  identifier is set, nothing is raised (the loop is a total function), and the loop
  goes on with the remaining descriptions, which are registered exactly as if that
  description were not there.
\<close>

theorem unmatched_descriptor_skipped:
  assumes refs: "get_refs (NodeId d) \<noteq> []" and miss: "sd (cn (BrowseName d)) = None"
  shows "register_step cn get_refs to_string sd d st =
           st\<lparr>warnings := warnings st @ [mismatch_warning (cn (BrowseName d))]\<rparr>
       \<and> register_children cn get_refs to_string sd (pre @ d # post) st =
           register_children cn get_refs to_string sd post
             ((register_children cn get_refs to_string sd pre st)
                \<lparr>warnings := warnings (register_children cn get_refs to_string sd pre st) @
                    [mismatch_warning (cn (BrowseName d))]\<rparr>)
       \<and> registry (register_children cn get_refs to_string sd (pre @ d # post) st) =
           registry (register_children cn get_refs to_string sd (pre @ post) st)
       \<and> gmodel (register_children cn get_refs to_string sd (pre @ d # post) st) =
           gmodel (register_children cn get_refs to_string sd (pre @ post) st)"
proof -
  let ?st1 = "register_children cn get_refs to_string sd pre st"
  let ?w = "warnings ?st1 @ [mismatch_warning (cn (BrowseName d))]"
  have step: "register_step cn get_refs to_string sd d st' =
           st'\<lparr>warnings := warnings st' @ [mismatch_warning (cn (BrowseName d))]\<rparr>" for st'
    using refs miss by (rule register_step_unmatched)
  have whole: "register_children cn get_refs to_string sd (pre @ d # post) st =
      register_children cn get_refs to_string sd post (?st1\<lparr>warnings := ?w\<rparr>)"
    by (simp add: register_children_append step)
  have without: "register_children cn get_refs to_string sd (pre @ post) st =
      register_children cn get_refs to_string sd post ?st1"
    by (simp add: register_children_append)
  from register_children_warnings [where st = ?st1 and w = ?w] obtain w' where
    eq: "register_children cn get_refs to_string sd post (?st1\<lparr>warnings := ?w\<rparr>) =
      (register_children cn get_refs to_string sd post ?st1)\<lparr>warnings := w'\<rparr>"
    by blast
  have reg: "registry (register_children cn get_refs to_string sd (pre @ d # post) st) =
           registry (register_children cn get_refs to_string sd (pre @ post) st)"
    by (simp add: whole without eq)
  have gm: "gmodel (register_children cn get_refs to_string sd (pre @ d # post) st) =
           gmodel (register_children cn get_refs to_string sd (pre @ post) st)"
    by (simp add: whole without eq)
  show ?thesis
    by (intro conjI) (rule step, rule whole, rule reg, rule gm)
qed

theorem unmatched_descriptor_skipped_witness:
  "refs_example (NodeId \<lparr>BrowseName = ''Extra'', NodeId = 2\<rparr>) = [102]
   \<and> dict_example (id (BrowseName \<lparr>BrowseName = ''Extra'', NodeId = 2::nat\<rparr>)) = None
   \<and> registry (register_children id refs_example str_nat dict_example
        ([\<lparr>BrowseName = ''Shape'', NodeId = 1\<rparr>] @ \<lparr>BrowseName = ''Extra'', NodeId = 2\<rparr> #
         [\<lparr>BrowseName = ''Color'', NodeId = 4\<rparr>]) start_state) =
       [(''Shape'', 101, Class ''Shape''), (''Color'', 104, Class ''Color'')]
   \<and> registry (register_children id refs_example str_nat dict_example
        ([\<lparr>BrowseName = ''Shape'', NodeId = 1\<rparr>] @ [\<lparr>BrowseName = ''Color'', NodeId = 4\<rparr>])
        start_state) =
       [(''Shape'', 101, Class ''Shape''), (''Color'', 104, Class ''Color'')]
   \<and> warnings (register_children id refs_example str_nat dict_example
        ([\<lparr>BrowseName = ''Shape'', NodeId = 1\<rparr>] @ \<lparr>BrowseName = ''Extra'', NodeId = 2\<rparr> #
         [\<lparr>BrowseName = ''Color'', NodeId = 4\<rparr>]) start_state) =
       [mismatch_warning ''Extra'']"
proof -
  let ?d = "\<lparr>BrowseName = ''Extra'', NodeId = 2::nat\<rparr>"
  have refs: "refs_example (NodeId ?d) \<noteq> []"
    by (simp add: refs_example_def)
  have miss: "dict_example (id (BrowseName ?d)) = None"
    by (simp add: dict_example_def)
  note inst = unmatched_descriptor_skipped [where get_refs = refs_example and d = ?d
      and sd = dict_example and cn = id and to_string = str_nat
      and pre = "[\<lparr>BrowseName = ''Shape'', NodeId = 1\<rparr>]"
      and post = "[\<lparr>BrowseName = ''Color'', NodeId = 4\<rparr>]" and st = start_state,
      OF refs miss]
  have without: "registry (register_children id refs_example str_nat dict_example
        ([\<lparr>BrowseName = ''Shape'', NodeId = 1\<rparr>] @ [\<lparr>BrowseName = ''Color'', NodeId = 4\<rparr>])
        start_state) =
       [(''Shape'', 101, Class ''Shape''), (''Color'', 104, Class ''Color'')]"
    by (simp add: register_step_def refs_example_def dict_example_def start_state_def)
  from inst without have with_d: "registry (register_children id refs_example str_nat dict_example
        ([\<lparr>BrowseName = ''Shape'', NodeId = 1\<rparr>] @ ?d #
         [\<lparr>BrowseName = ''Color'', NodeId = 4\<rparr>]) start_state) =
       [(''Shape'', 101, Class ''Shape''), (''Color'', 104, Class ''Color'')]"
    by metis
  have w: "warnings (register_children id refs_example str_nat dict_example
        ([\<lparr>BrowseName = ''Shape'', NodeId = 1\<rparr>] @ ?d #
         [\<lparr>BrowseName = ''Color'', NodeId = 4\<rparr>]) start_state) =
       [mismatch_warning ''Extra'']"
    by (simp add: register_step_def refs_example_def dict_example_def start_state_def)
  have r2: "refs_example (NodeId ?d) = [102]"
    by (simp add: refs_example_def)
  from r2 miss with_d without w show ?thesis
    by (intro conjI)
qed

section \<open>Properties of the enumerations read from a server\<close>

lemma enum_strings_loop_ok:
  assumes "\<forall>t\<in>set val. t \<noteq> None"
  shows "\<exists>evs. enum_strings_loop idx val = Inr evs \<and> length evs = length val
         \<and> (\<forall>i<length val. Value (evs ! i) = PInt (int (idx + i))
               \<and> EnumeratedValue_init (val ! i) (PInt (int (idx + i))) = Inr (evs ! i))"
  using assms
proof (induction val arbitrary: idx)
  case Nil
  then show ?case by simp
next
  case (Cons st sts)
  from Cons.prems obtain n where st: "st = Some n" by auto
  then obtain ev where ev: "EnumeratedValue_init st (PInt (int idx)) = Inr ev"
    and evv: "Value ev = PInt (int idx)"
    by (simp add: EnumeratedValue_init_def)
  from Cons.prems have "\<forall>t\<in>set sts. t \<noteq> None" by simp
  from Cons.IH [OF this, of "Suc idx"] obtain evs where
    loop: "enum_strings_loop (Suc idx) sts = Inr evs" and len: "length evs = length sts" and
    each: "\<forall>i<length sts. Value (evs ! i) = PInt (int (Suc idx + i))
               \<and> EnumeratedValue_init (sts ! i) (PInt (int (Suc idx + i))) = Inr (evs ! i)"
    by blast
  have res: "enum_strings_loop idx (st # sts) = Inr (ev # evs)"
    using ev loop by simp
  have "\<forall>i<length (st # sts). Value ((ev # evs) ! i) = PInt (int (idx + i))
               \<and> EnumeratedValue_init ((st # sts) ! i) (PInt (int (idx + i))) = Inr ((ev # evs) ! i)"
  proof (intro allI impI)
    fix i assume i: "i < length (st # sts)"
    show "Value ((ev # evs) ! i) = PInt (int (idx + i))
               \<and> EnumeratedValue_init ((st # sts) ! i) (PInt (int (idx + i))) = Inr ((ev # evs) ! i)"
    proof (cases i)
      case 0
      with ev evv show ?thesis by simp
    next
      case (Suc j)
      with i have "j < length sts" by simp
      with each have "Value (evs ! j) = PInt (int (Suc idx + j))
               \<and> EnumeratedValue_init (sts ! j) (PInt (int (Suc idx + j))) = Inr (evs ! j)"
        by blast
      with Suc show ?thesis by simp
    qed
  qed
  with res len show ?case by simp
qed

text \<open>
  Claim C9. \<open>_get_enum_strings\<close> on a list of texts, none of them \<open>None\<close>, returns an
  \<open>EnumType\<close> with one member per text, in the order of the list; the value of the
  member at position \<open>i\<close> is the integer \<open>i\<close>, and the member is what
  \<open>EnumeratedValue\<close> makes of the text at that position.
\<close>

theorem get_enum_strings_ordinal:
  assumes "\<forall>t\<in>set val. t \<noteq> None"
  shows "\<exists>c. get_enum_strings cn name val = Inr c
           \<and> ename c = cn name
           \<and> length (efields c) = length val
           \<and> (\<forall>i<length val. Value (efields c ! i) = PInt (int i)
                 \<and> EnumeratedValue_init (val ! i) (PInt (int i)) = Inr (efields c ! i))"
proof -
  from enum_strings_loop_ok [OF assms, of 0] obtain evs where
    loop: "enum_strings_loop 0 val = Inr evs" and len: "length evs = length val" and
    each: "\<forall>i<length val. Value (evs ! i) = PInt (int (0 + i))
               \<and> EnumeratedValue_init (val ! i) (PInt (int (0 + i))) = Inr (evs ! i)"
    by blast
  have "get_enum_strings cn name val = Inr ((EnumType_init cn name)\<lparr>efields := evs\<rparr>)"
    using loop by (simp add: get_enum_strings_def)
  moreover have "ename ((EnumType_init cn name)\<lparr>efields := evs\<rparr>) = cn name"
    by (simp add: EnumType_init_def)
  ultimately show ?thesis
    using len each by simp
qed

theorem get_enum_strings_ordinal_witness:
  "get_enum_strings id ''Mode'' [Some ''Off'', Some ''None'', Some ''Stand By''] =
     Inr \<lparr>ename = ''Mode'',
          efields = [\<lparr>Name = ''Off'', Value = PInt 0\<rparr>, \<lparr>Name = ''None_'', Value = PInt 1\<rparr>,
                     \<lparr>Name = ''StandBy'', Value = PInt 2\<rparr>],
          etypeid = None\<rparr>
   \<and> (\<exists>c. get_enum_strings id ''Mode'' [Some ''Off'', Some ''None'', Some ''Stand By''] = Inr c
        \<and> length (efields c) = 3 \<and> Value (efields c ! 2) = PInt 2)"
proof -
  have all: "\<forall>t\<in>set [Some ''Off'', Some ''None'', Some ''Stand By'']. t \<noteq> None"
    by simp
  from get_enum_strings_ordinal [OF all, of id "''Mode''"] obtain c where
    c: "get_enum_strings id ''Mode'' [Some ''Off'', Some ''None'', Some ''Stand By''] = Inr c"
    and len: "length (efields c) = length [Some ''Off'', Some ''None'', Some ''Stand By'']"
    and each: "\<forall>i<length [Some ''Off'', Some ''None'', Some ''Stand By''].
        Value (efields c ! i) = PInt (int i)"
    by blast
  from each have "Value (efields c ! 2) = PInt 2"
    by simp
  with c len have ex: "\<exists>c. get_enum_strings id ''Mode'' [Some ''Off'', Some ''None'', Some ''Stand By''] = Inr c
        \<and> length (efields c) = 3 \<and> Value (efields c ! 2) = PInt 2"
    by simp
  have ev: "get_enum_strings id ''Mode'' [Some ''Off'', Some ''None'', Some ''Stand By''] =
     Inr \<lparr>ename = ''Mode'',
          efields = [\<lparr>Name = ''Off'', Value = PInt 0\<rparr>, \<lparr>Name = ''None_'', Value = PInt 1\<rparr>,
                     \<lparr>Name = ''StandBy'', Value = PInt 2\<rparr>],
          etypeid = None\<rparr>"
    by (simp add: get_enum_strings_def EnumeratedValue_init_def EnumType_init_def)
  from ev ex show ?thesis by (intro conjI)
qed

end
